theory Spec2Isabelle
  imports Complex_Main "HOL-Library.Word" "HOL-Library.Signed_Division"
begin

section \<open>Faults and outcomes\<close>

text \<open>
  The Go code has no error returns on the paths modelled here: it panics. A run-time
  panic of the Go runtime (integer division by zero, index out of range, a negative
  length given to \<^verbatim>\<open>make\<close>, a nil dereference) and the explicit
  \<^verbatim>\<open>panic("unknown effect")\<close> are values of \<open>fault\<close>.
\<close>

datatype fault = DivideByZero | UnknownEffect | IndexOutOfRange | MakeSliceLen | NilDereference

text \<open>
  A call either returns, panics, or parks its calling thread in \<^verbatim>\<open>Barrier.Wait\<close>
  without ever being released.
\<close>

datatype 'a outcome = Done 'a | Panic fault | Blocked

section \<open>Go integer division\<close>

text \<open>
  Go's \<^verbatim>\<open>/\<close> on \<^verbatim>\<open>int\<close> truncates towards zero and panics when the divisor is zero.
  Go's \<^verbatim>\<open>int\<close> is modelled as \<open>int\<close>: the values are image coordinates, row
  counts and worker counts, and every intermediate value of the slice computation lies
  between the smallest and the largest of its inputs.
\<close>

definition go_div :: "int \<Rightarrow> int \<Rightarrow> fault + int" where
  "go_div a b = (if b = 0 then Inl DivideByZero else Inr (a sdiv b))"

section \<open>Rectangles and row bands\<close>

text \<open>
  \<^verbatim>\<open>image.Rectangle\<close> with its two corner points \<^verbatim>\<open>Min\<close> and \<^verbatim>\<open>Max\<close>; a point
  \<open>(x, y)\<close> is inside when \<open>Min.X \<le> x < Max.X\<close> and \<open>Min.Y \<le> y < Max.Y\<close>.
\<close>

record Rectangle =
  Min_X :: int
  Min_Y :: int
  Max_X :: int
  Max_Y :: int

definition point_in :: "int \<Rightarrow> int \<Rightarrow> Rectangle \<Rightarrow> bool" where
  "point_in x y r \<longleftrightarrow> Min_X r \<le> x \<and> x < Max_X r \<and> Min_Y r \<le> y \<and> y < Max_Y r"

text \<open>
  The body of the loop \<^verbatim>\<open>for i := 0; i < numThreads; i++\<close> of \<^verbatim>\<open>BSPConvolution\<close> and
  \<^verbatim>\<open>BSPGrayscale\<close> up to the \<^verbatim>\<open>go\<close> statement: the pair \<open>(start, end)\<close> handed to the
  goroutine of band \<open>i\<close>.
\<close>

definition slice_bounds :: "Rectangle \<Rightarrow> int \<Rightarrow> int \<Rightarrow> int \<Rightarrow> int \<times> int" where
  "slice_bounds bounds sliceHeight numThreads i =
     (let start = Min_Y bounds + i * sliceHeight;
          end = start + sliceHeight
      in (start, if i = numThreads - 1 then Max_Y bounds else end))"

text \<open>
  All bands of one call, in launch order; the division
  \<^verbatim>\<open>sliceHeight := height / numThreads\<close> comes first and may panic.
\<close>

definition slices :: "Rectangle \<Rightarrow> int \<Rightarrow> fault + (int \<times> int) list" where
  "slices bounds numThreads =
     (let height = Max_Y bounds - Min_Y bounds
      in case go_div height numThreads of
           Inl e \<Rightarrow> Inl e
         | Inr sliceHeight \<Rightarrow>
             Inr (map (slice_bounds bounds sliceHeight numThreads) [0..numThreads - 1]))"

text \<open>The rows \<^verbatim>\<open>for y := startY; y < endY; y++\<close> visits.\<close>

definition band_rows :: "int \<times> int \<Rightarrow> int set" where
  "band_rows b = {fst b ..< snd b}"

section \<open>Floating point\<close>

text \<open>
  \<^verbatim>\<open>float64\<close> values are modelled as the real numbers they denote; no infinity
  or NaN arises from 16-bit channels and these kernels. The arithmetic of the target is a
  parameter of the model:
  \<^item> \<open>rnd\<close> maps a real to the \<^verbatim>\<open>float64\<close> the hardware returns for it (a division
    \<^verbatim>\<open>x / y\<close> is \<open>rnd (x / y)\<close>, the constant \<^verbatim>\<open>1.0 / 9\<close> is \<open>rnd (1 / 9)\<close>);
  \<^item> \<open>muladd s a k\<close> is what \<^verbatim>\<open>s += a * k\<close> leaves in \<^verbatim>\<open>s\<close>; Go allows the
    compiler to fuse the two operations, so no shape is fixed for it.
\<close>

record float64_ops =
  rnd :: "real \<Rightarrow> real"
  muladd :: "real \<Rightarrow> real \<Rightarrow> real \<Rightarrow> real"

text \<open>
  What IEEE 754 round-to-nearest guarantees for \<open>rnd\<close> in the range used here: an
  integer of magnitude up to \<open>2^53\<close> is representable and so returned as it is, and a
  real of magnitude between 1/4 and \<open>2^53\<close> (well inside the normal range) is returned
  with relative error at most \<open>2^-53\<close>.
\<close>

definition round_to_nearest :: "(real \<Rightarrow> real) \<Rightarrow> bool" where
  "round_to_nearest r \<longleftrightarrow>
     (\<forall>k::int. \<bar>k\<bar> \<le> 2 ^ 53 \<longrightarrow> r (of_int k) = of_int k) \<and>
     (\<forall>x::real. 1 / 4 \<le> \<bar>x\<bar> \<and> \<bar>x\<bar> \<le> 2 ^ 53 \<longrightarrow> \<bar>r x - x\<bar> \<le> \<bar>x\<bar> / 2 ^ 53)"

text \<open>
  \<^verbatim>\<open>clamp\<close>: \<^verbatim>\<open>uint16(math.Min(65535, math.Max(0, comp)))\<close>. The conversion of a
  \<^verbatim>\<open>float64\<close> in \<open>[0, 65535]\<close> to \<^verbatim>\<open>uint16\<close> discards the fraction.
\<close>

definition clamp :: "real \<Rightarrow> 16 word" where
  "clamp v = word_of_int \<lfloor>min 65535 (max 0 v)\<rfloor>"

section \<open>Colours, pixel buffers, images\<close>

text \<open>\<^verbatim>\<open>color.RGBA64\<close>: four 16-bit channels.\<close>

record color_RGBA64 =
  chan_R :: "16 word"
  chan_G :: "16 word"
  chan_B :: "16 word"
  chan_A :: "16 word"

definition zero_color :: color_RGBA64 where
  "zero_color = \<lparr>chan_R = 0, chan_G = 0, chan_B = 0, chan_A = 0\<rparr>"

text \<open>\<^verbatim>\<open>color.RGBA64.RGBA()\<close> widens each channel to \<^verbatim>\<open>uint32\<close>.\<close>

definition RGBA :: "color_RGBA64 \<Rightarrow> 32 word \<times> 32 word \<times> 32 word \<times> 32 word" where
  "RGBA c = (ucast (chan_R c), ucast (chan_G c), ucast (chan_B c), ucast (chan_A c))"

text \<open>
  \<^verbatim>\<open>image.RGBA64\<close> of the Go standard library, by its contract: \<^verbatim>\<open>At\<close> returns the
  zero colour outside \<^verbatim>\<open>Rect\<close>, \<^verbatim>\<open>Set\<close> does nothing outside \<^verbatim>\<open>Rect\<close>. The byte
  layout of \<^verbatim>\<open>Pix\<close> is abstracted to a function from coordinates to colours.
\<close>

record image_RGBA64 =
  Pix :: "int \<times> int \<Rightarrow> color_RGBA64"
  Rect :: Rectangle

definition NewRGBA64 :: "Rectangle \<Rightarrow> image_RGBA64" where
  "NewRGBA64 r = \<lparr>Pix = (\<lambda>p. zero_color), Rect = r\<rparr>"

definition At :: "image_RGBA64 \<Rightarrow> int \<Rightarrow> int \<Rightarrow> color_RGBA64" where
  "At p x y = (if point_in x y (Rect p) then Pix p (x, y) else zero_color)"

definition Set_pixel :: "image_RGBA64 \<Rightarrow> int \<Rightarrow> int \<Rightarrow> color_RGBA64 \<Rightarrow> image_RGBA64" where
  "Set_pixel p x y c = (if point_in x y (Rect p) then p\<lparr>Pix := (Pix p)((x, y) := c)\<rparr> else p)"

text \<open>
  \<^verbatim>\<open>png.Image\<close>. \<^verbatim>\<open>In\<close> and \<^verbatim>\<open>Out\<close> point to two buffers that \<^verbatim>\<open>Load\<close> allocates
  separately and \<^verbatim>\<open>SwapBuffers\<close> exchanges, so they never alias; the model holds them
  by value. The field \<^verbatim>\<open>Chunks\<close> is not read on any path modelled here.
\<close>

record Image =
  In :: image_RGBA64
  Out :: image_RGBA64
  Bounds :: Rectangle
  EffectsApplied :: bool

text \<open>
  \<^verbatim>\<open>Load\<close> after decoding: \<open>decoded\<close> gives the colour the copy loop stores at each
  point of \<open>bounds\<close>. Opening and decoding the file are outside the model.
\<close>

definition Load :: "Rectangle \<Rightarrow> (int \<times> int \<Rightarrow> color_RGBA64) \<Rightarrow> Image" where
  "Load bounds decoded =
     \<lparr>In = foldl (\<lambda>inImg y. foldl (\<lambda>inImg x. Set_pixel inImg x y (decoded (x, y))) inImg
                                 [Min_X bounds .. Max_X bounds - 1])
                (NewRGBA64 bounds) [Min_Y bounds .. Max_Y bounds - 1],
      Out = NewRGBA64 bounds,
      Bounds = bounds,
      EffectsApplied = False\<rparr>"

text \<open>\<^verbatim>\<open>Save\<close>: the buffer handed to the encoder.\<close>

definition Save :: "Image \<Rightarrow> image_RGBA64" where
  "Save img = (if EffectsApplied img then Out img else In img)"

definition SwapBuffers :: "Image \<Rightarrow> Image" where
  "SwapBuffers img = img\<lparr>In := Out img, Out := In img\<rparr>"

section \<open>The effects, single-threaded\<close>

text \<open>The body of the pixel loop of \<^verbatim>\<open>Grayscale\<close> and of \<^verbatim>\<open>BSPGrayscale\<close>.\<close>

definition grey_pixel :: "float64_ops \<Rightarrow> color_RGBA64 \<Rightarrow> color_RGBA64" where
  "grey_pixel F c =
     (case RGBA c of (r, g, b, a) \<Rightarrow>
        let greyC = clamp (rnd F (real (unat (r + g + b)) / 3))
        in \<lparr>chan_R = greyC, chan_G = greyC, chan_B = greyC, chan_A = ucast a\<rparr>)"

definition Grayscale :: "float64_ops \<Rightarrow> Image \<Rightarrow> Image" where
  "Grayscale F img =
     (let bounds = Rect (Out img)
      in img\<lparr>Out :=
           foldl (\<lambda>out y. foldl (\<lambda>out x. Set_pixel out x y (grey_pixel F (At (In img) x y))) out
                            [Min_X bounds .. Max_X bounds - 1])
                 (Out img) [Min_Y bounds .. Max_Y bounds - 1]\<rparr>)"

text \<open>
  \<^verbatim>\<open>convolve\<close>: the 3x3 neighbourhood of \<open>(x, y)\<close>, neighbours outside \<^verbatim>\<open>img.Bounds\<close>
  skipped. \<open>convolve_step\<close> is the body of the inner loop over \<open>dx\<close>. The kernel is a
  \<^verbatim>\<open>[9]float64\<close>; the index \<open>(dy+1)*3 + (dx+1)\<close> lies in \<open>0..8\<close>.
\<close>

definition convolve_step ::
  "float64_ops \<Rightarrow> Image \<Rightarrow> int \<Rightarrow> int \<Rightarrow> real list \<Rightarrow> int \<Rightarrow> real \<times> real \<times> real \<Rightarrow> int
     \<Rightarrow> real \<times> real \<times> real" where
  "convolve_step F img x y kern dy acc dx =
     (case acc of (sumR, sumG, sumB) \<Rightarrow>
        let bounds = Bounds img;
            neighborX = x + dx;
            neighborY = y + dy
        in if neighborX < Min_X bounds \<or> Max_X bounds \<le> neighborX \<or>
              neighborY < Min_Y bounds \<or> Max_Y bounds \<le> neighborY
           then (sumR, sumG, sumB)
           else (case RGBA (At (In img) neighborX neighborY) of (r, g, b, a) \<Rightarrow>
                   let idx = (dy + 1) * 3 + (dx + 1);
                       k = kern ! nat idx
                   in (muladd F sumR (real (unat r)) k,
                       muladd F sumG (real (unat g)) k,
                       muladd F sumB (real (unat b)) k)))"

definition convolve ::
  "float64_ops \<Rightarrow> Image \<Rightarrow> int \<Rightarrow> int \<Rightarrow> real list \<Rightarrow> 16 word \<times> 16 word \<times> 16 word" where
  "convolve F img x y kern =
     (case foldl (\<lambda>acc dy. foldl (convolve_step F img x y kern dy) acc [-1, 0, 1])
                 (0, 0, 0) [-1, 0, 1] of
        (sumR, sumG, sumB) \<Rightarrow> (clamp sumR, clamp sumG, clamp sumB))"

text \<open>The body of the pixel loop of \<^verbatim>\<open>convolution\<close> and of \<^verbatim>\<open>BSPConvolution\<close>.\<close>

definition convolved_pixel :: "float64_ops \<Rightarrow> Image \<Rightarrow> real list \<Rightarrow> int \<Rightarrow> int \<Rightarrow> color_RGBA64" where
  "convolved_pixel F img kern x y =
     (case convolve F img x y kern of (r, g, b) \<Rightarrow>
        case RGBA (At (In img) x y) of (r', g', b', a) \<Rightarrow>
          \<lparr>chan_R = r, chan_G = g, chan_B = b, chan_A = ucast a\<rparr>)"


definition sharpen_kernel :: "real list" where
  "sharpen_kernel = [0, -1, 0, -1, 5, -1, 0, -1, 0]"

definition edge_kernel :: "real list" where
  "edge_kernel = [-1, -1, -1, -1, 8, -1, -1, -1, -1]"

definition blur_kernel :: "float64_ops \<Rightarrow> real list" where
  "blur_kernel F = replicate 9 (rnd F (1 / 9))"




section \<open>The barrier\<close>

text \<open>
  \<^verbatim>\<open>Barrier\<close>: the three counters. The embedded mutex and the condition variable are the
  synchronisation itself: every access to the counters happens with the mutex held, so a
  critical section is one atomic step of the model. The counters are Go \<^verbatim>\<open>int\<close>s,
  modelled as \<open>int\<close>; \<^verbatim>\<open>count\<close> stays below the number of callers, and
  \<^verbatim>\<open>generation\<close> counts completed phases, of which a 64-bit counter cannot see
  \<open>2^63\<close> (each call of \<^verbatim>\<open>BSPConvolution\<close> makes a fresh barrier and passes it once).
\<close>

record Barrier =
  count :: int
  threshold :: int
  generation :: int

definition NewBarrier :: "int \<Rightarrow> Barrier" where
  "NewBarrier n = \<lparr>count = 0, threshold = n, generation = 0\<rparr>"

text \<open>
  \<^verbatim>\<open>Wait\<close> from \<^verbatim>\<open>b.Lock()\<close> to the point where the caller either returns (it was the
  last to arrive: \<open>None\<close>) or parks in \<^verbatim>\<open>b.cond.Wait()\<close>, which releases the mutex,
  holding the generation it captured (\<open>Some localGen\<close>).
\<close>

definition Wait_enter :: "Barrier \<Rightarrow> Barrier \<times> int option" where
  "Wait_enter b =
     (let localGen = generation b;
          b1 = b\<lparr>count := count b + 1\<rparr>
      in if count b1 = threshold b1
         then (b1\<lparr>count := 0, generation := generation b1 + 1\<rparr>, None)
         else (b1, Some localGen))"

text \<open>
  A parked caller that wakes up holds the mutex again and tests the loop condition
  \<^verbatim>\<open>localGen == b.generation\<close>: it returns from \<^verbatim>\<open>Wait\<close> when the test fails and parks
  again otherwise.
\<close>

definition Wait_wake :: "Barrier \<Rightarrow> int \<Rightarrow> bool" where
  "Wait_wake b localGen \<longleftrightarrow> localGen \<noteq> generation b"

text \<open>
  Threads around one barrier. The state is the barrier and, for each parked thread, the
  generation it captured. A thread that is not parked may call \<^verbatim>\<open>Wait\<close>
  (\<open>Arrive\<close>); a parked thread may wake at any moment (\<open>Wake\<close>), by the broadcast or
  spuriously. \<open>step\<close> is \<open>None\<close> for an event that cannot happen in the state.
\<close>

datatype event = Arrive nat | Wake nat

type_synonym barrier_state = "Barrier \<times> (nat \<Rightarrow> int option)"

fun step :: "barrier_state \<Rightarrow> event \<Rightarrow> barrier_state option" where
  "step (b, parked) (Arrive t) =
     (case parked t of
        Some g \<Rightarrow> None
      | None \<Rightarrow> (case Wait_enter b of
                   (b', None) \<Rightarrow> Some (b', parked)
                 | (b', Some localGen) \<Rightarrow> Some (b', parked(t := Some localGen))))"
| "step (b, parked) (Wake t) =
     (case parked t of
        None \<Rightarrow> None
      | Some localGen \<Rightarrow>
          if Wait_wake b localGen then Some (b, parked(t := None)) else Some (b, parked))"

fun run :: "barrier_state \<Rightarrow> event list \<Rightarrow> barrier_state option" where
  "run s [] = Some s"
| "run s (e # es) = (case step s e of None \<Rightarrow> None | Some s' \<Rightarrow> run s' es)"

definition initial :: "int \<Rightarrow> barrier_state" where
  "initial n = (NewBarrier n, \<lambda>t. None)"

text \<open>
  What holds in every state a run reaches from a new barrier of threshold \<open>N\<close>: the
  threshold stays \<open>N\<close>, \<^verbatim>\<open>count\<close> is not negative (and below a positive \<open>N\<close>), and no
  parked thread holds a generation ahead of the barrier's.
\<close>

definition barrier_inv :: "int \<Rightarrow> barrier_state \<Rightarrow> bool" where
  "barrier_inv N s \<longleftrightarrow>
     threshold (fst s) = N \<and> 0 \<le> count (fst s) \<and> (1 \<le> N \<longrightarrow> count (fst s) < N)
     \<and> (\<forall>t g. snd s t = Some g \<longrightarrow> g \<le> generation (fst s))"

section \<open>The effects, sliced\<close>

text \<open>
  \<^verbatim>\<open>BSPConvolution\<close> and \<^verbatim>\<open>BSPGrayscale\<close> start one goroutine per band. A goroutine
  reads only \<^verbatim>\<open>img.In\<close>, writes only the rows of its band in \<^verbatim>\<open>img.Out\<close>, and then
  calls \<^verbatim>\<open>barrier.Wait()\<close>; the launching thread calls \<^verbatim>\<open>barrier.Wait()\<close> after the
  launch loop. The model runs the goroutines in launch order, each to its \<^verbatim>\<open>Wait\<close>,
  and the launching thread last. \<open>band_pixels\<close> is the pixel loop of one goroutine.
  The two Go functions are the same text up to the colour written at \<open>(x, y)\<close>;
  \<open>BSP_run\<close> is that text with the colour as the parameter \<open>f\<close>.
\<close>

definition band_pixels ::
  "(int \<Rightarrow> int \<Rightarrow> color_RGBA64) \<Rightarrow> Rectangle \<Rightarrow> image_RGBA64 \<Rightarrow> int \<times> int \<Rightarrow> image_RGBA64" where
  "band_pixels f bounds out band =
     (case band of (startY, endY) \<Rightarrow>
        foldl (\<lambda>out y. foldl (\<lambda>out x. Set_pixel out x y (f x y)) out
                         [Min_X bounds .. Max_X bounds - 1])
              out [startY .. endY - 1])"

text \<open>
  The launching thread's \<^verbatim>\<open>barrier.Wait()\<close> once every goroutine has arrived: no
  further arrival follows, so a launcher that parks finds the generation it captured
  whenever it wakes.
\<close>

definition launcher_returns :: "Barrier \<Rightarrow> bool" where
  "launcher_returns b =
     (case Wait_enter b of
        (b', None) \<Rightarrow> True
      | (b', Some localGen) \<Rightarrow> Wait_wake b' localGen)"

definition BSP_run ::
  "(int \<Rightarrow> int \<Rightarrow> color_RGBA64) \<Rightarrow> Image \<Rightarrow> int \<Rightarrow> Image outcome" where
  "BSP_run f img numThreads =
     (let bounds = Bounds img
      in case slices bounds numThreads of
           Inl e \<Rightarrow> Panic e
         | Inr bands \<Rightarrow>
             (case foldl (\<lambda>(out, barrier) band.
                            (band_pixels f bounds out band, fst (Wait_enter barrier)))
                         (Out img, NewBarrier (numThreads + 1)) bands of
                (out, barrier) \<Rightarrow>
                  if launcher_returns barrier then Done (img\<lparr>Out := out\<rparr>) else Blocked))"

definition BSPConvolution :: "float64_ops \<Rightarrow> Image \<Rightarrow> real list \<Rightarrow> int \<Rightarrow> Image outcome" where
  "BSPConvolution F img kern numThreads = BSP_run (convolved_pixel F img kern) img numThreads"

definition BSPSharpen :: "float64_ops \<Rightarrow> Image \<Rightarrow> int \<Rightarrow> Image outcome" where
  "BSPSharpen F img numThreads = BSPConvolution F img sharpen_kernel numThreads"

definition BSPEdgeDetection :: "float64_ops \<Rightarrow> Image \<Rightarrow> int \<Rightarrow> Image outcome" where
  "BSPEdgeDetection F img numThreads = BSPConvolution F img edge_kernel numThreads"

definition BSPBlur :: "float64_ops \<Rightarrow> Image \<Rightarrow> int \<Rightarrow> Image outcome" where
  "BSPBlur F img numThreads = BSPConvolution F img (blur_kernel F) numThreads"

definition BSPGrayscale :: "float64_ops \<Rightarrow> Image \<Rightarrow> int \<Rightarrow> Image outcome" where
  "BSPGrayscale F img numThreads =
     BSP_run (\<lambda>x y. grey_pixel F (At (In img) x y)) img numThreads"

section \<open>The effect list of one image\<close>

text \<open>The \<^verbatim>\<open>switch\<close> of \<^verbatim>\<open>applyEffectsSliced\<close>.\<close>

definition apply_effect :: "float64_ops \<Rightarrow> Image \<Rightarrow> string \<Rightarrow> int \<Rightarrow> Image outcome" where
  "apply_effect F img effect threads =
     (if effect = ''S'' then BSPSharpen F img threads
      else if effect = ''E'' then BSPEdgeDetection F img threads
      else if effect = ''B'' then BSPBlur F img threads
      else if effect = ''G'' then BSPGrayscale F img threads
      else Panic UnknownEffect)"

text \<open>
  The loop \<^verbatim>\<open>for i, effect := range effects\<close>; the test \<^verbatim>\<open>i < len(effects)-1\<close> holds
  exactly when effects remain after the current one.
\<close>

fun applyEffectsSliced :: "float64_ops \<Rightarrow> Image \<Rightarrow> string list \<Rightarrow> int \<Rightarrow> Image outcome" where
  "applyEffectsSliced F img [] threads = Done img"
| "applyEffectsSliced F img (effect # rest) threads =
     (case apply_effect F img effect threads of
        Done img' \<Rightarrow> applyEffectsSliced F (if rest \<noteq> [] then SwapBuffers img' else img') rest threads
      | Panic e \<Rightarrow> Panic e
      | Blocked \<Rightarrow> Blocked)"

text \<open>
  \<^verbatim>\<open>processImageBSP\<close> between \<^verbatim>\<open>png.Load\<close> and the encoder: \<open>img\<close> is the loaded
  image, the result is the buffer \<^verbatim>\<open>Save\<close> encodes. File errors are outside the model.
\<close>

definition processImageBSP ::
  "float64_ops \<Rightarrow> Image \<Rightarrow> string list \<Rightarrow> int \<Rightarrow> image_RGBA64 outcome" where
  "processImageBSP F img effects numThreads =
     (if length effects > 0
      then (case applyEffectsSliced F (img\<lparr>EffectsApplied := True\<rparr>) effects numThreads of
              Done img' \<Rightarrow> Done (Save img')
            | Panic e \<Rightarrow> Panic e
            | Blocked \<Rightarrow> Blocked)
      else Done (Save img))"

section \<open>The work-stealing deque\<close>

text \<open>
  Nodes live in a heap that only grows: \<open>nodes\<close> lists every node allocated so far and
  an address is an index into it. An \<^verbatim>\<open>unsafe.Pointer\<close> is an optional address, \<open>None\<close>
  for \<^verbatim>\<open>nil\<close>; a task pointer \<^verbatim>\<open>*png.ImageTask\<close> is an optional task. The
  operations are modelled as one thread runs them with no other thread interfering:
  every atomic load, store and compare-and-swap acts on the current state, in program
  order.
\<close>

type_synonym addr = nat

record 't node =
  task :: "'t option"
  nxt :: "addr option"

record 't Deque =
  nodes :: "'t node list"
  head :: "addr option"
  tail :: "addr option"

text \<open>Dereferencing a pointer; \<open>None\<close> is the nil-pointer panic.\<close>

definition deref :: "'t Deque \<Rightarrow> addr option \<Rightarrow> 't node option" where
  "deref d p =
     (case p of
        None \<Rightarrow> None
      | Some a \<Rightarrow> if a < length (nodes d) then Some (nodes d ! a) else None)"


text \<open>\<^verbatim>\<open>atomic.CompareAndSwapPointer\<close> on \<^verbatim>\<open>d.tail\<close>, on \<^verbatim>\<open>d.head\<close> and on a node's \<^verbatim>\<open>next\<close>.\<close>

definition CAS_tail :: "'t Deque \<Rightarrow> addr option \<Rightarrow> addr option \<Rightarrow> bool \<times> 't Deque" where
  "CAS_tail d old new = (if tail d = old then (True, d\<lparr>tail := new\<rparr>) else (False, d))"

definition CAS_head :: "'t Deque \<Rightarrow> addr option \<Rightarrow> addr option \<Rightarrow> bool \<times> 't Deque" where
  "CAS_head d old new = (if head d = old then (True, d\<lparr>head := new\<rparr>) else (False, d))"

definition CAS_next ::
  "'t Deque \<Rightarrow> addr option \<Rightarrow> addr option \<Rightarrow> addr option \<Rightarrow> bool \<times> 't Deque" where
  "CAS_next d p old new =
     (case p of
        None \<Rightarrow> (False, d)
      | Some a \<Rightarrow>
          if nxt (nodes d ! a) = old
          then (True, d\<lparr>nodes := (nodes d)[a := (nodes d ! a)\<lparr>nxt := new\<rparr>]\<rparr>)
          else (False, d))"

text \<open>
  The loop of \<^verbatim>\<open>Push\<close>, with \<open>newNode\<close> already allocated. \<open>CAS_next\<close> is only
  reached with a pointer that \<open>deref\<close> has just followed. A loop that never exits has
  the value \<open>None\<close>.
\<close>

partial_function (option) Push_loop :: "'t Deque \<Rightarrow> addr \<Rightarrow> (fault + 't Deque) option" where
  "Push_loop d newNode =
     (let tailp = tail d
      in case deref d tailp of
           None \<Rightarrow> Some (Inl NilDereference)
         | Some tn \<Rightarrow>
             let nextp = nxt tn
             in if tailp = tail d
                then if nextp = None
                     then (let r = CAS_next d tailp None (Some newNode)
                           in if fst r
                              then Some (Inr (snd (CAS_tail (snd r) tailp (Some newNode))))
                              else Push_loop (snd r) newNode)
                     else Push_loop (snd (CAS_tail d tailp nextp)) newNode
                else Push_loop d newNode)"

declare Push_loop.simps [code]

definition Push :: "'t Deque \<Rightarrow> 't option \<Rightarrow> (fault + 't Deque) option" where
  "Push d t =
     Push_loop (d\<lparr>nodes := nodes d @ [\<lparr>task = t, nxt = None\<rparr>]\<rparr>) (length (nodes d))"

text \<open>\<^verbatim>\<open>findPrevious\<close>: the walk from \<^verbatim>\<open>d.head\<close>; the result \<open>None\<close> inside \<open>Inr\<close> is \<^verbatim>\<open>nil\<close>.\<close>

partial_function (option) findPrevious_loop ::
  "'t Deque \<Rightarrow> addr option \<Rightarrow> addr option \<Rightarrow> (fault + addr option) option" where
  "findPrevious_loop d target current =
     (case deref d current of
        None \<Rightarrow> Some (Inl NilDereference)
      | Some cur \<Rightarrow>
          let nextp = nxt cur
          in if nextp = target then Some (Inr current)
             else if nextp = None then Some (Inr None)
             else findPrevious_loop d target nextp)"

declare findPrevious_loop.simps [code]

definition findPrevious :: "'t Deque \<Rightarrow> addr option \<Rightarrow> (fault + addr option) option" where
  "findPrevious d target = findPrevious_loop d target (head d)"

text \<open>\<^verbatim>\<open>Pop\<close> and \<^verbatim>\<open>Steal\<close> return the task pointer and the flag, and the new state.\<close>

partial_function (option) Pop ::
  "'t Deque \<Rightarrow> (fault + ('t option \<times> bool) \<times> 't Deque) option" where
  "Pop d =
     (let tailp = tail d; headp = head d
      in if tailp = headp then Some (Inr ((None, False), d))
         else (case findPrevious d tailp of
                 None \<Rightarrow> None
               | Some (Inl e) \<Rightarrow> Some (Inl e)
               | Some (Inr prev) \<Rightarrow>
                   if prev = None then Pop d
                   else (let r = CAS_tail d tailp prev
                         in if fst r
                            then (case deref (snd r) tailp of
                                    None \<Rightarrow> Some (Inl NilDereference)
                                  | Some tn \<Rightarrow> Some (Inr ((task tn, True), snd r)))
                            else Pop (snd r))))"

declare Pop.simps [code]

partial_function (option) Steal ::
  "'t Deque \<Rightarrow> (fault + ('t option \<times> bool) \<times> 't Deque) option" where
  "Steal d =
     (let headp = head d; tailp = tail d
      in case deref d headp of
           None \<Rightarrow> Some (Inl NilDereference)
         | Some hn \<Rightarrow>
             let nextp = nxt hn
             in if headp \<noteq> head d then Steal d
                else if headp = tailp then Some (Inr ((None, False), d))
                else (let r = CAS_head d headp nextp
                      in if fst r
                         then (case deref (snd r) nextp of
                                 None \<Rightarrow> Some (Inl NilDereference)
                               | Some nn \<Rightarrow> Some (Inr ((task nn, True), snd r)))
                         else Steal (snd r)))"

declare Steal.simps [code]

definition IsEmpty :: "'t Deque \<Rightarrow> bool" where
  "IsEmpty d \<longleftrightarrow> head d = tail d"

text \<open>
  A sequence of calls by one thread at a time, each call finished before the next
  begins, and the tasks the successful \<^verbatim>\<open>Pop\<close> and \<^verbatim>\<open>Steal\<close> calls hand out, in order.
\<close>

datatype 't call = PushCall 't | PopCall | StealCall

fun deliveries :: "'t Deque \<Rightarrow> 't call list \<Rightarrow> (fault + 't option list) option" where
  "deliveries d [] = Some (Inr [])"
| "deliveries d (PushCall t # cs) =
     (case Push d (Some t) of
        None \<Rightarrow> None
      | Some (Inl e) \<Rightarrow> Some (Inl e)
      | Some (Inr d') \<Rightarrow> deliveries d' cs)"
| "deliveries d (PopCall # cs) =
     (case Pop d of
        None \<Rightarrow> None
      | Some (Inl e) \<Rightarrow> Some (Inl e)
      | Some (Inr ((t, ok), d')) \<Rightarrow>
          (case deliveries d' cs of
             None \<Rightarrow> None
           | Some (Inl e) \<Rightarrow> Some (Inl e)
           | Some (Inr ts) \<Rightarrow> Some (Inr (if ok then t # ts else ts))))"
| "deliveries d (StealCall # cs) =
     (case Steal d of
        None \<Rightarrow> None
      | Some (Inl e) \<Rightarrow> Some (Inl e)
      | Some (Inr ((t, ok), d')) \<Rightarrow>
          (case deliveries d' cs of
             None \<Rightarrow> None
           | Some (Inl e) \<Rightarrow> Some (Inl e)
           | Some (Inr ts) \<Rightarrow> Some (Inr (if ok then t # ts else ts))))"

section \<open>Seeding the workers\<close>

text \<open>
  \<^verbatim>\<open>png.ImageTask\<close>, and \<^verbatim>\<open>Worker\<close> with its deque. \<open>RunBSPSteal_seed\<close> is
  \<^verbatim>\<open>RunBSPSteal\<close> up to the test \<^verbatim>\<open>len(workers) == 0\<close>: the allocation
  \<^verbatim>\<open>make([]*Worker, numWorkers)\<close>, which panics on a negative length, and the
  round-robin loop over the decoded tasks (\<open>tasks\<close>: the objects the JSON decoder yields,
  for all data directories in order). Indexing \<^verbatim>\<open>workers[workerIndex]\<close> panics out of
  range, \<^verbatim>\<open>%\<close> panics on a zero divisor and otherwise takes the sign of the dividend.
\<close>

record ImageTask =
  InPath :: string
  OutPath :: string
  Effects :: "string list"
  DataDir :: string





section \<open>The row bands partition the rows\<close>

lemma sdiv_nonneg: "0 \<le> h \<Longrightarrow> 1 \<le> n \<Longrightarrow> (h::int) sdiv n = h div n"
  by (simp add: signed_divide_int_def sgn_if)

lemma slices_ok:
  assumes "1 \<le> n"
  shows "slices bounds n = Inr (map (slice_bounds bounds ((Max_Y bounds - Min_Y bounds) sdiv n) n) [0..n - 1])"
  using assms by (simp add: slices_def go_div_def)

lemma band_rows_slice:
  "band_rows (slice_bounds bounds sh n i) =
     {Min_Y bounds + i * sh ..< (if i = n - 1 then Max_Y bounds else Min_Y bounds + i * sh + sh)}"
  by (simp add: band_rows_def slice_bounds_def Let_def)

lemma slice_height_facts:
  fixes n h :: int
  assumes "1 \<le> n" "0 \<le> h"
  shows "0 \<le> h div n" "n * (h div n) \<le> h"
proof -
  show "0 \<le> h div n" using assms by (simp add: pos_imp_zdiv_nonneg_iff)
  have "n * (h div n) + h mod n = h" by simp
  moreover have "0 \<le> h mod n" using assms by simp
  ultimately show "n * (h div n) \<le> h" by linarith
qed

lemma band_within:
  fixes n i :: int
  assumes n: "1 \<le> n" and h: "Min_Y bounds \<le> Max_Y bounds" and i: "0 \<le> i" "i < n"
    and y: "y \<in> band_rows (slice_bounds bounds ((Max_Y bounds - Min_Y bounds) div n) n i)"
  shows "Min_Y bounds \<le> y \<and> y < Max_Y bounds"
proof -
  define sh where "sh = (Max_Y bounds - Min_Y bounds) div n"
  have sh0: "0 \<le> sh" and nsh: "n * sh \<le> Max_Y bounds - Min_Y bounds"
    using slice_height_facts [of n "Max_Y bounds - Min_Y bounds"] n h by (simp_all add: sh_def)
  have lo: "0 \<le> i * sh" using i sh0 by simp
  have "(i + 1) * sh \<le> n * sh" using i sh0 by (intro mult_right_mono) simp_all
  then have hi: "i * sh + sh \<le> Max_Y bounds - Min_Y bounds" using nsh by (simp add: algebra_simps)
  from y have "Min_Y bounds + i * sh \<le> y
    \<and> y < (if i = n - 1 then Max_Y bounds else Min_Y bounds + i * sh + sh)"
    by (auto simp: band_rows_slice sh_def split: if_splits)
  then show ?thesis using lo hi by (auto split: if_splits)
qed

lemma band_covers:
  fixes n :: int
  assumes n: "1 \<le> n" and y: "Min_Y bounds \<le> y" "y < Max_Y bounds"
  shows "\<exists>i. 0 \<le> i \<and> i < n \<and> y \<in> band_rows (slice_bounds bounds ((Max_Y bounds - Min_Y bounds) div n) n i)"
proof -
  define sh where "sh = (Max_Y bounds - Min_Y bounds) div n"
  have h: "0 \<le> Max_Y bounds - Min_Y bounds" using y by simp
  have sh0: "0 \<le> sh" using slice_height_facts(1) [OF n h] by (simp add: sh_def)
  define k where "k = (y - Min_Y bounds) div sh"
  show ?thesis
  proof (cases "sh = 0 \<or> n - 1 \<le> k")
    case True
    have "(n - 1) * sh \<le> y - Min_Y bounds"
    proof (cases "sh = 0")
      case True then show ?thesis using y by simp
    next
      case False
      with True have nk: "n - 1 \<le> k" and shp: "0 < sh" using sh0 by auto
      have "(n - 1) * sh \<le> k * sh" using nk sh0 by (intro mult_right_mono) simp_all
      also have "k * sh \<le> y - Min_Y bounds"
      proof -
        have "sh * k + (y - Min_Y bounds) mod sh = y - Min_Y bounds" by (simp add: k_def)
        moreover have "0 \<le> (y - Min_Y bounds) mod sh" using shp by simp
        ultimately show ?thesis by (simp add: mult.commute)
      qed
      finally show ?thesis .
    qed
    then have "y \<in> band_rows (slice_bounds bounds sh n (n - 1))"
      using y by (simp add: band_rows_slice)
    then show ?thesis using n unfolding sh_def by (intro exI [of _ "n - 1"]) simp
  next
    case False
    then have shp: "0 < sh" and kn: "k < n - 1" using sh0 by auto
    have k0: "0 \<le> k" using y shp by (simp add: k_def pos_imp_zdiv_nonneg_iff)
    have eq: "sh * k + (y - Min_Y bounds) mod sh = y - Min_Y bounds" by (simp add: k_def)
    have m0: "0 \<le> (y - Min_Y bounds) mod sh" and m1: "(y - Min_Y bounds) mod sh < sh"
      using shp by simp_all
    have "Min_Y bounds + k * sh \<le> y" "y < Min_Y bounds + k * sh + sh"
      using eq m0 m1 by (simp_all add: mult.commute)
    then have "y \<in> band_rows (slice_bounds bounds sh n k)"
      using kn by (simp add: band_rows_slice)
    then show ?thesis using k0 kn unfolding sh_def by (intro exI [of _ k]) simp
  qed
qed

lemma band_disjoint:
  fixes n i j :: int
  assumes n: "1 \<le> n" and h: "Min_Y bounds \<le> Max_Y bounds" and ij: "0 \<le> i" "i < j" "j < n"
  shows "band_rows (slice_bounds bounds ((Max_Y bounds - Min_Y bounds) div n) n i)
       \<inter> band_rows (slice_bounds bounds ((Max_Y bounds - Min_Y bounds) div n) n j) = {}"
proof -
  define sh where "sh = (Max_Y bounds - Min_Y bounds) div n"
  have sh0: "0 \<le> sh" using slice_height_facts(1) [OF n] h by (simp add: sh_def)
  have "(i + 1) * sh \<le> j * sh" using ij sh0 by (intro mult_right_mono) simp_all
  then have "Min_Y bounds + i * sh + sh \<le> Min_Y bounds + j * sh" by (simp add: algebra_simps)
  moreover have "i \<noteq> n - 1" using ij by simp
  ultimately show ?thesis unfolding sh_def [symmetric] by (auto simp: band_rows_slice)
qed


text \<open>
  Claim C4. For every image height \<open>\<ge> 0\<close> and every worker count \<open>\<ge> 1\<close>, the division
  does not panic, there is one band per worker, the bands are pairwise disjoint, and
  their union is the row range \<open>[Min.Y, Max.Y)\<close>: every row lies in exactly one band.
\<close>

theorem bands_partition_rows:
  assumes n: "1 \<le> numThreads" and h: "Min_Y bounds \<le> Max_Y bounds"
  shows "\<exists>bands. slices bounds numThreads = Inr bands
           \<and> int (length bands) = numThreads
           \<and> (\<forall>i j. i < j \<and> j < length bands \<longrightarrow> band_rows (bands ! i) \<inter> band_rows (bands ! j) = {})
           \<and> (\<Union>b \<in> set bands. band_rows b) = {Min_Y bounds ..< Max_Y bounds}"
proof -
  define sh where "sh = (Max_Y bounds - Min_Y bounds) div numThreads"
  define bands where "bands = map (slice_bounds bounds sh numThreads) [0..numThreads - 1]"
  have sl: "slices bounds numThreads = Inr bands"
    using slices_ok [OF n, of bounds] sdiv_nonneg [of "Max_Y bounds - Min_Y bounds" numThreads] n h
    by (simp add: bands_def sh_def)
  have len: "length bands = nat numThreads" by (simp add: bands_def)
  have nth: "bands ! i = slice_bounds bounds sh numThreads (int i)" if "i < nat numThreads" for i
    using that by (simp add: bands_def nth_upto)
  have disj: "band_rows (bands ! i) \<inter> band_rows (bands ! j) = {}"
    if "i < j" "j < length bands" for i j
  proof -
    have "0 \<le> int i" "int i < int j" "int j < numThreads" using that len by simp_all
    from band_disjoint [OF n h this] show ?thesis
      using that len by (simp add: nth sh_def)
  qed
  have cover: "(\<Union>b \<in> set bands. band_rows b) = {Min_Y bounds ..< Max_Y bounds}"
  proof (rule set_eqI)
    fix y
    have "y \<in> (\<Union>b \<in> set bands. band_rows b)
          \<longleftrightarrow> (\<exists>i. 0 \<le> i \<and> i < numThreads \<and> y \<in> band_rows (slice_bounds bounds sh numThreads i))"
      by (auto simp: bands_def)
    also have "\<dots> \<longleftrightarrow> Min_Y bounds \<le> y \<and> y < Max_Y bounds"
      using band_within [OF n h, of _ y] band_covers [OF n, of bounds y]
      unfolding sh_def by blast
    finally show "y \<in> (\<Union>b \<in> set bands. band_rows b) \<longleftrightarrow> y \<in> {Min_Y bounds ..< Max_Y bounds}"
      by simp
  qed
  show ?thesis using sl len disj cover n by (intro exI [of _ bands]) auto
qed

text \<open>Three workers on ten rows: the bands are rows 0-2, 3-5 and 6-9.\<close>

theorem bands_partition_rows_witness:
  "slices \<lparr>Min_X = 0, Min_Y = 0, Max_X = 4, Max_Y = 10\<rparr> 3 = Inr [(0, 3), (3, 6), (6, 10)]
   \<and> band_rows (0, 3) \<inter> band_rows (3, 6) = {}
   \<and> band_rows (0, 3) \<union> band_rows (3, 6) \<union> band_rows (6, 10) = {0 ..< 10}"
proof -
  let ?r = "\<lparr>Min_X = 0, Min_Y = 0, Max_X = 4, Max_Y = 10\<rparr>"
  have n: "(1::int) \<le> 3" and h: "Min_Y ?r \<le> Max_Y ?r" by simp_all
  have sl: "slices ?r 3 = Inr [(0, 3), (3, 6), (6, 10)]"
    by (simp add: slices_def go_div_def slice_bounds_def Let_def signed_divide_int_def upto.simps)
  from bands_partition_rows [OF n h] sl
  have "(\<forall>i j. i < j \<and> j < length [(0::int, 3::int), (3, 6), (6, 10)]
            \<longrightarrow> band_rows ([(0, 3), (3, 6), (6, 10)] ! i) \<inter> band_rows ([(0, 3), (3, 6), (6, 10)] ! j) = {})"
    and u: "(\<Union>b \<in> set [(0::int, 3::int), (3, 6), (6, 10)]. band_rows b) = {0 ..< 10}"
    by auto
  from this(1) [rule_format, of 0 1] have "band_rows (0, 3) \<inter> band_rows (3, 6) = {}" by simp
  moreover from u have "band_rows (0, 3) \<union> band_rows (3, 6) \<union> band_rows (6, 10) = {0 ..< 10}"
    by (simp add: Un_assoc)
  ultimately show ?thesis using sl by simp
qed

section \<open>What the pixel loops write\<close>

text \<open>
  A pixel loop whose colour at \<open>(x, y)\<close> does not depend on the buffer it writes leaves
  \<open>f x y\<close> at every point it visits inside the buffer's rectangle and nothing else
  changed.
\<close>

lemma Rect_Set_pixel [simp]: "Rect (Set_pixel p x y c) = Rect p"
  by (simp add: Set_pixel_def)

lemma Pix_Set_pixel:
  "Pix (Set_pixel p x y c) q = (if q = (x, y) \<and> point_in x y (Rect p) then c else Pix p q)"
  by (simp add: Set_pixel_def)

lemma Rect_row_fold [simp]:
  "Rect (foldl (\<lambda>out x. Set_pixel out x y (f x y)) out xs) = Rect out"
  by (induction xs arbitrary: out) simp_all

lemma Pix_row_fold:
  "Pix (foldl (\<lambda>out x. Set_pixel out x y (f x y)) out xs) (x', y') =
     (if y' = y \<and> x' \<in> set xs \<and> point_in x' y' (Rect out) then f x' y' else Pix out (x', y'))"
  by (induction xs arbitrary: out) (auto simp: Pix_Set_pixel)

lemma Rect_rows_fold [simp]:
  "Rect (foldl (\<lambda>out y. foldl (\<lambda>out x. Set_pixel out x y (f x y)) out xs) out ys) = Rect out"
  by (induction ys arbitrary: out) simp_all

lemma Pix_rows_fold:
  "Pix (foldl (\<lambda>out y. foldl (\<lambda>out x. Set_pixel out x y (f x y)) out xs) out ys) (x', y') =
     (if y' \<in> set ys \<and> x' \<in> set xs \<and> point_in x' y' (Rect out) then f x' y' else Pix out (x', y'))"
  by (induction ys arbitrary: out) (auto simp: Pix_row_fold)

lemma set_upto_less: "set [a..b - 1] = {a..<b}" for a b :: int
  by auto

lemma Rect_band_pixels [simp]: "Rect (band_pixels f bounds out band) = Rect out"
  by (cases band) (simp add: band_pixels_def)

lemma Pix_band_pixels:
  "Pix (band_pixels f bounds out band) (x, y) =
     (if y \<in> band_rows band \<and> Min_X bounds \<le> x \<and> x < Max_X bounds \<and> point_in x y (Rect out)
      then f x y else Pix out (x, y))"
  by (cases band) (simp add: band_pixels_def Pix_rows_fold band_rows_def)

lemma Rect_bands_fold [simp]:
  "Rect (foldl (band_pixels f bounds) out bands) = Rect out"
  by (induction bands arbitrary: out) simp_all

lemma Pix_bands_fold:
  "Pix (foldl (band_pixels f bounds) out bands) (x, y) =
     (if (\<exists>b \<in> set bands. y \<in> band_rows b) \<and> Min_X bounds \<le> x \<and> x < Max_X bounds
         \<and> point_in x y (Rect out)
      then f x y else Pix out (x, y))"
  by (induction bands arbitrary: out) (auto simp: Pix_band_pixels)

lemma image_RGBA64_eqI: "Pix a = Pix b \<Longrightarrow> Rect a = Rect b \<Longrightarrow> a = b" for a b :: image_RGBA64
  by (cases a, cases b) simp

lemma foldl_pair_split:
  "foldl (\<lambda>(out, barrier) band. (g out band, h barrier)) (out, barrier) bands =
     (foldl g out bands, (h ^^ length bands) barrier)"
  by (induction bands arbitrary: out barrier) (simp_all add: funpow_swap1)

lemma arrivals_below_threshold:
  "int k < threshold b - count b \<Longrightarrow>
     ((\<lambda>b. fst (Wait_enter b)) ^^ k) b = b\<lparr>count := count b + int k\<rparr>"
proof (induction k)
  case 0 then show ?case by simp
next
  case (Suc k)
  then have "((\<lambda>b. fst (Wait_enter b)) ^^ k) b = b\<lparr>count := count b + int k\<rparr>" by simp
  then show ?case using Suc.prems by (simp add: Wait_enter_def Let_def)
qed

section \<open>Bands of an ill-formed rectangle\<close>

lemma band_empty_negative_height:
  fixes n i :: int
  assumes n: "1 \<le> n" and h: "Max_Y bounds < Min_Y bounds" and i: "0 \<le> i" "i < n"
  shows "band_rows (slice_bounds bounds ((Max_Y bounds - Min_Y bounds) sdiv n) n i) = {}"
proof -
  define a where "a = Min_Y bounds - Max_Y bounds"
  define q where "q = a div n"
  have a0: "0 < a" using h by (simp add: a_def)
  have sh: "(Max_Y bounds - Min_Y bounds) sdiv n = - q"
    using n h by (simp add: signed_divide_int_def sgn_if q_def a_def abs_if)
  have q0: "0 \<le> q" and nq: "n * q \<le> a"
    using slice_height_facts [of n a] n a0 by (simp_all add: q_def)
  have "i * q \<le> (n - 1) * q" using i q0 by (intro mult_right_mono) simp_all
  also have "\<dots> \<le> n * q" using q0 by (intro mult_right_mono) simp_all
  finally have iq: "i * q \<le> a" using nq by simp
  show ?thesis
    unfolding sh band_rows_slice using q0 iq by (auto simp: a_def)
qed

lemma slices_rows:
  assumes n: "1 \<le> n"
  shows "\<exists>bands. slices bounds n = Inr bands \<and> length bands = nat n
           \<and> (\<forall>y. (\<exists>b \<in> set bands. y \<in> band_rows b) \<longleftrightarrow> Min_Y bounds \<le> y \<and> y < Max_Y bounds)"
proof -
  let ?bands = "map (slice_bounds bounds ((Max_Y bounds - Min_Y bounds) sdiv n) n) [0..n - 1]"
  have sl: "slices bounds n = Inr ?bands" by (rule slices_ok [OF n])
  have "(\<exists>b \<in> set ?bands. y \<in> band_rows b) \<longleftrightarrow> Min_Y bounds \<le> y \<and> y < Max_Y bounds" for y
  proof (cases "Min_Y bounds \<le> Max_Y bounds")
    case True
    have "(\<exists>b \<in> set ?bands. y \<in> band_rows b)
          \<longleftrightarrow> (\<exists>i. 0 \<le> i \<and> i < n
                   \<and> y \<in> band_rows (slice_bounds bounds ((Max_Y bounds - Min_Y bounds) div n) n i))"
      using sdiv_nonneg [of "Max_Y bounds - Min_Y bounds" n] n True by auto
    also have "\<dots> \<longleftrightarrow> Min_Y bounds \<le> y \<and> y < Max_Y bounds"
      using band_within [OF n True, of _ y] band_covers [OF n, of bounds y] by blast
    finally show ?thesis .
  next
    case False
    then have "Max_Y bounds < Min_Y bounds" by simp
    from band_empty_negative_height [OF n this] have "\<forall>b \<in> set ?bands. band_rows b = {}"
      by auto
    then show ?thesis using False by auto
  qed
  then show ?thesis using sl by (intro exI [of _ ?bands]) simp
qed

section \<open>The sliced effects\<close>

lemma launcher_after_bands:
  assumes "0 \<le> n"
  shows "launcher_returns (((\<lambda>b. fst (Wait_enter b)) ^^ nat n) (NewBarrier (n + 1)))"
proof -
  have "int (nat n) < threshold (NewBarrier (n + 1)) - count (NewBarrier (n + 1))"
    using assms by (simp add: NewBarrier_def)
  from arrivals_below_threshold [OF this]
  show ?thesis using assms by (simp add: launcher_returns_def Wait_enter_def Let_def NewBarrier_def)
qed

lemma BSP_run_whole_image:
  assumes n: "1 \<le> n"
  shows "BSP_run f img n =
           Done (img\<lparr>Out :=
                   foldl (\<lambda>out y. foldl (\<lambda>out x. Set_pixel out x y (f x y)) out
                                    [Min_X (Bounds img) .. Max_X (Bounds img) - 1])
                         (Out img) [Min_Y (Bounds img) .. Max_Y (Bounds img) - 1]\<rparr>)"
proof -
  let ?bounds = "Bounds img"
  let ?seq = "foldl (\<lambda>out y. foldl (\<lambda>out x. Set_pixel out x y (f x y)) out
                                    [Min_X ?bounds .. Max_X ?bounds - 1])
                         (Out img) [Min_Y ?bounds .. Max_Y ?bounds - 1]"
  from slices_rows [OF n, of ?bounds] obtain bands where
    sl: "slices ?bounds n = Inr bands" and len: "length bands = nat n" and
    cover: "\<And>y. (\<exists>b \<in> set bands. y \<in> band_rows b) \<longleftrightarrow> Min_Y ?bounds \<le> y \<and> y < Max_Y ?bounds"
    by blast
  have ret: "launcher_returns (((\<lambda>b. fst (Wait_enter b)) ^^ length bands) (NewBarrier (n + 1)))"
    using launcher_after_bands [of n] n unfolding len by simp
  have out: "foldl (band_pixels f ?bounds) (Out img) bands = ?seq"
  proof (rule image_RGBA64_eqI)
    show "Pix (foldl (band_pixels f ?bounds) (Out img) bands) = Pix ?seq"
    proof (rule ext)
      fix q :: "int \<times> int"
      obtain x y where q: "q = (x, y)" by (cases q)
      show "Pix (foldl (band_pixels f ?bounds) (Out img) bands) q = Pix ?seq q"
        unfolding q Pix_bands_fold Pix_rows_fold cover by auto
    qed
  qed simp
  show ?thesis
    unfolding BSP_run_def Let_def sl sum.case foldl_pair_split prod.case
    using ret out by simp
qed





section \<open>The effect list\<close>

lemma In_Load_At:
  "At (In (Load bounds decoded)) x y = (if point_in x y bounds then decoded (x, y) else zero_color)"
  by (auto simp: Load_def At_def Pix_rows_fold NewRGBA64_def point_in_def)

text \<open>
  Claim C8. With an empty effect list \<^verbatim>\<open>applyEffectsSliced\<close> returns the image as it
  received it, both buffers untouched; \<^verbatim>\<open>processImageBSP\<close> then leaves
  \<^verbatim>\<open>EffectsApplied\<close> false, so \<^verbatim>\<open>Save\<close> encodes the input buffer of the loaded image,
  which holds the decoded colour at every point of the bounds.
\<close>

theorem empty_effect_list_unmodified:
  "applyEffectsSliced F img [] threads = Done img
   \<and> processImageBSP F (Load bounds decoded) [] threads = Done (In (Load bounds decoded))
   \<and> At (In (Load bounds decoded)) x y = (if point_in x y bounds then decoded (x, y) else zero_color)"
  by (simp add: In_Load_At) (simp add: processImageBSP_def Save_def Load_def)

lemma BSP_run_outcomes:
  "(\<exists>img'. BSP_run f img n = Done img') \<or> BSP_run f img n = Panic DivideByZero
     \<or> BSP_run f img n = Blocked"
  by (auto simp: BSP_run_def slices_def go_div_def Let_def split: prod.splits)

lemma apply_effect_unknown:
  "effect \<notin> {''S'', ''E'', ''B'', ''G''} \<Longrightarrow> apply_effect F img effect threads = Panic UnknownEffect"
  by (simp add: apply_effect_def)

lemma apply_effect_known:
  assumes "effect \<in> {''S'', ''E'', ''B'', ''G''}"
  shows "apply_effect F img effect threads \<noteq> Panic UnknownEffect"
    and "1 \<le> threads \<Longrightarrow> \<exists>img'. apply_effect F img effect threads = Done img'"
proof -
  have *: "BSP_run f img threads \<noteq> Panic UnknownEffect" for f
    using BSP_run_outcomes [of f img threads] by auto
  show "apply_effect F img effect threads \<noteq> Panic UnknownEffect"
    using assms *
    by (auto simp: apply_effect_def BSPSharpen_def BSPEdgeDetection_def BSPBlur_def
        BSPConvolution_def BSPGrayscale_def)
  show "\<exists>img'. apply_effect F img effect threads = Done img'" if "1 \<le> threads"
    using assms BSP_run_whole_image [OF that]
    by (auto simp: apply_effect_def BSPSharpen_def BSPEdgeDetection_def BSPBlur_def
        BSPConvolution_def BSPGrayscale_def)
qed

lemma applyEffects_all_known:
  "\<forall>e \<in> set effects. e \<in> {''S'', ''E'', ''B'', ''G''} \<Longrightarrow>
     applyEffectsSliced F img effects threads \<noteq> Panic UnknownEffect"
proof (induction effects arbitrary: img)
  case Nil then show ?case by simp
next
  case (Cons e es)
  then have k: "e \<in> {''S'', ''E'', ''B'', ''G''}" by simp
  show ?case
  proof (cases "apply_effect F img e threads")
    case (Done img')
    then show ?thesis using Cons by simp
  next
    case (Panic x)
    then show ?thesis using apply_effect_known(1) [OF k, of F img threads] by auto
  next
    case Blocked
    then show ?thesis by simp
  qed
qed

lemma applyEffects_some_unknown:
  "1 \<le> threads \<Longrightarrow> \<exists>e \<in> set effects. e \<notin> {''S'', ''E'', ''B'', ''G''} \<Longrightarrow>
     applyEffectsSliced F img effects threads = Panic UnknownEffect"
proof (induction effects arbitrary: img)
  case Nil then show ?case by simp
next
  case (Cons e es)
  show ?case
  proof (cases "e \<in> {''S'', ''E'', ''B'', ''G''}")
    case True
    from apply_effect_known(2) [OF True Cons.prems(1), of F img]
    obtain img' where d: "apply_effect F img e threads = Done img'" by blast
    have "\<exists>e \<in> set es. e \<notin> {''S'', ''E'', ''B'', ''G''}" using Cons.prems(2) True by auto
    then show ?thesis using Cons.IH [OF Cons.prems(1)] d by simp
  next
    case False
    then show ?thesis using apply_effect_unknown [of e F img threads] by simp
  qed
qed

text \<open>
  Claim C7. With at least one worker, \<^verbatim>\<open>applyEffectsSliced\<close> panics with "unknown
  effect" exactly when the list holds an identifier outside \<open>{S, E, B, G}\<close>: the
  effects before the first such identifier complete, and the panic happens there. With
  any worker count it never panics for this reason on a list of known identifiers, and
  it panics at once when the first identifier is unknown.
\<close>

theorem unknown_effect_is_fatal:
  "(1 \<le> threads \<longrightarrow>
      (applyEffectsSliced F img effects threads = Panic UnknownEffect
         \<longleftrightarrow> (\<exists>e \<in> set effects. e \<notin> {''S'', ''E'', ''B'', ''G''})))
   \<and> ((\<forall>e \<in> set effects. e \<in> {''S'', ''E'', ''B'', ''G''})
        \<longrightarrow> applyEffectsSliced F img effects threads \<noteq> Panic UnknownEffect)
   \<and> (effect \<notin> {''S'', ''E'', ''B'', ''G''}
        \<longrightarrow> applyEffectsSliced F img (effect # effects) threads = Panic UnknownEffect)"
  using applyEffects_all_known [of effects F img threads]
    applyEffects_some_unknown [of threads effects F img]
    apply_effect_unknown [of effect F img threads]
  by auto

text \<open>The lists \<open>[G, X, S]\<close> and \<open>[G, S]\<close> on a one-pixel image with one worker.\<close>

theorem unknown_effect_is_fatal_witness:
  "applyEffectsSliced \<lparr>rnd = (\<lambda>x. x), muladd = (\<lambda>s a k. s + a * k)\<rparr>
      (Load \<lparr>Min_X = 0, Min_Y = 0, Max_X = 1, Max_Y = 1\<rparr> (\<lambda>p. zero_color)) [''G'', ''X'', ''S''] 1
     = Panic UnknownEffect
   \<and> applyEffectsSliced \<lparr>rnd = (\<lambda>x. x), muladd = (\<lambda>s a k. s + a * k)\<rparr>
      (Load \<lparr>Min_X = 0, Min_Y = 0, Max_X = 1, Max_Y = 1\<rparr> (\<lambda>p. zero_color)) [''G'', ''S''] 1
     \<noteq> Panic UnknownEffect"
  using unknown_effect_is_fatal [of 1 "\<lparr>rnd = (\<lambda>x. x), muladd = (\<lambda>s a k. s + a * k)\<rparr>"
      "Load \<lparr>Min_X = 0, Min_Y = 0, Max_X = 1, Max_Y = 1\<rparr> (\<lambda>p. zero_color)" "[''G'', ''X'', ''S'']"]
    unknown_effect_is_fatal [of 1 "\<lparr>rnd = (\<lambda>x. x), muladd = (\<lambda>s a k. s + a * k)\<rparr>"
      "Load \<lparr>Min_X = 0, Min_Y = 0, Max_X = 1, Max_Y = 1\<rparr> (\<lambda>p. zero_color)" "[''G'', ''S'']"]
  by simp

section \<open>Worker counts that are not positive\<close>




section \<open>Grayscale\<close>

text \<open>
  The sum of three 16-bit channels fits 32 bits, and the \<^verbatim>\<open>float64\<close> nearest to a third
  of it truncates to the integer quotient: when the sum is a multiple of 3 the quotient is
  an integer and division returns it exactly, otherwise the quotient is at least a third
  away from every integer and the rounding error is far smaller.
\<close>

lemma unat_channel_less: "unat a < 65536" for a :: "16 word"
  using unsigned_less [of a, where ?'a = nat] by simp

lemma unat_ucast_channel: "unat (ucast a :: 32 word) = unat a" for a :: "16 word"
  using unat_channel_less [of a] by (simp add: unsigned_ucast_eq take_bit_nat_eq_self)

lemma ucast_ucast_channel: "ucast (ucast a :: 32 word) = a" for a :: "16 word"
  by (rule ucast_up_ucast_id) (simp add: is_up)

lemma unat_sum3:
  fixes a b c :: "16 word"
  shows "unat (ucast a + ucast b + ucast c :: 32 word) = unat a + unat b + unat c"
  using unat_channel_less [of a] unat_channel_less [of b] unat_channel_less [of c]
  by (simp add: unat_word_ariths unat_ucast_channel)

lemma floor_of_rounded_third:
  assumes r: "round_to_nearest r" and s: "s \<le> 196605"
  shows "\<lfloor>min 65535 (max 0 (r (real s / 3)))\<rfloor> = int (s div 3)"
proof -
  define k where "k = s div 3"
  define j where "j = s mod 3"
  have sk: "s = 3 * k + j" and j3: "j < 3" by (simp_all add: k_def j_def)
  have k_le: "k \<le> 65535" using s by (simp add: k_def)
  show ?thesis
  proof (cases "j = 0")
    case True
    then have x: "real s / 3 = of_int (int k)" using sk by simp
    have "\<bar>int k\<bar> \<le> 2 ^ 53" using k_le by simp
    with r have "r (of_int (int k)) = of_int (int k)"
      unfolding round_to_nearest_def by blast
    then show ?thesis using k_le unfolding x k_def [symmetric] by simp
  next
    case False
    then have j12: "1 \<le> j" "j \<le> 2" using j3 by simp_all
    define x where "x = real s / 3"
    have xk: "x = real k + real j / 3" using sk by (simp add: x_def)
    have k_lt: "k < 65535" using s sk j12 by simp
    have x_lo: "real k + 1 / 3 \<le> x" and x_hi: "x \<le> real k + 2 / 3"
      using j12 by (simp_all add: xk)
    have x_pos: "1 / 4 \<le> \<bar>x\<bar>" and x_max: "\<bar>x\<bar> \<le> 2 ^ 53" and x_small: "x \<le> 65535"
      using x_lo x_hi k_lt by simp_all
    from r x_pos x_max have err: "\<bar>r x - x\<bar> \<le> \<bar>x\<bar> / 2 ^ 53"
      unfolding round_to_nearest_def by blast
    have "\<bar>x\<bar> / 2 ^ 53 < 1 / 3" using x_small x_lo by simp
    with err have e: "\<bar>r x - x\<bar> < 1 / 3" by simp
    have lo: "real k < r x" and hi: "r x < real k + 1" using e x_lo x_hi by linarith+
    have "min 65535 (max 0 (r x)) = r x" using lo hi k_lt by simp
    moreover have "\<lfloor>r x\<rfloor> = int k"
      by (rule floor_unique) (use lo hi in simp_all)
    ultimately show ?thesis by (simp add: x_def k_def)
  qed
qed

lemma grey_pixel_average:
  assumes "round_to_nearest (rnd F)"
  shows "grey_pixel F c =
           \<lparr>chan_R = of_nat ((unat (chan_R c) + unat (chan_G c) + unat (chan_B c)) div 3),
            chan_G = of_nat ((unat (chan_R c) + unat (chan_G c) + unat (chan_B c)) div 3),
            chan_B = of_nat ((unat (chan_R c) + unat (chan_G c) + unat (chan_B c)) div 3),
            chan_A = chan_A c\<rparr>"
proof -
  let ?s = "unat (chan_R c) + unat (chan_G c) + unat (chan_B c)"
  have "?s \<le> 196605"
    using unat_channel_less [of "chan_R c"] unat_channel_less [of "chan_G c"]
      unat_channel_less [of "chan_B c"] by simp
  from floor_of_rounded_third [OF assms this]
  have g: "clamp (rnd F (real ?s / 3)) = of_nat (?s div 3)"
    by (simp add: clamp_def)
  show ?thesis
    unfolding grey_pixel_def RGBA_def prod.case unat_sum3 ucast_ucast_channel g Let_def ..
qed

lemma unat_average: "unat (of_nat ((unat a + unat b + unat c) div 3) :: 16 word)
                       = (unat a + unat b + unat c) div 3" for a b c :: "16 word"
proof -
  have "(unat a + unat b + unat c) div 3 < 65536"
    using unat_channel_less [of a] unat_channel_less [of b] unat_channel_less [of c] by simp
  then show ?thesis by (simp add: unat_of_nat)
qed

lemma grey_pixel_idem:
  assumes "round_to_nearest (rnd F)"
  shows "grey_pixel F (grey_pixel F c) = grey_pixel F c"
proof -
  have third: "(k + k + k) div 3 = k" for k :: nat by presburger
  show ?thesis
    by (subst grey_pixel_average [OF assms, of "grey_pixel F c"])
       (simp add: grey_pixel_average [OF assms, of c] unat_average third)
qed

lemma grey_example:
  assumes "round_to_nearest (rnd F)"
  shows "grey_pixel F \<lparr>chan_R = 25, chan_G = 75, chan_B = 250, chan_A = a\<rparr>
           = \<lparr>chan_R = 116, chan_G = 116, chan_B = 116, chan_A = a\<rparr>"
  by (simp add: grey_pixel_average [OF assms])

lemma round_to_nearest_exact: "round_to_nearest (\<lambda>x. x)"
  by (simp add: round_to_nearest_def)


lemma Grayscale_At:
  "point_in x y (Rect (Out img)) \<Longrightarrow>
     At (Out (Grayscale F img)) x y = grey_pixel F (At (In img) x y)"
  by (simp add: Grayscale_def Let_def At_def Pix_rows_fold) (simp add: point_in_def)

lemma BSPGrayscale_At:
  assumes "1 \<le> n" "point_in x y (Bounds img)" "point_in x y (Rect (Out img))"
  shows "\<exists>img'. BSPGrayscale F img n = Done img'
           \<and> At (Out img') x y = grey_pixel F (At (In img) x y)"
  using assms(2,3)
  by (simp add: BSPGrayscale_def BSP_run_whole_image [OF assms(1)] At_def Pix_rows_fold)
     (simp add: point_in_def)

text \<open>
  Claim C6. For a rounding that meets IEEE 754, at every point of the output buffer
  \<^verbatim>\<open>Grayscale\<close> (and \<^verbatim>\<open>BSPGrayscale\<close> with at least one worker, which returns) writes
  the grey pixel of the input pixel: its three colour channels are the integer quotient of
  the sum of the input's red, green and blue by 3, its alpha is the input's alpha. The
  channels \<open>(25, 75, 250)\<close> give \<open>(116, 116, 116)\<close>.
\<close>

theorem grayscale_is_truncated_average:
  assumes r: "round_to_nearest (rnd F)"
  shows "(point_in x y (Rect (Out img))
            \<longrightarrow> At (Out (Grayscale F img)) x y = grey_pixel F (At (In img) x y))
       \<and> (1 \<le> n \<and> point_in x y (Bounds img) \<and> point_in x y (Rect (Out img))
            \<longrightarrow> (\<exists>img'. BSPGrayscale F img n = Done img'
                        \<and> At (Out img') x y = grey_pixel F (At (In img) x y)))
       \<and> unat (chan_R (grey_pixel F c)) = (unat (chan_R c) + unat (chan_G c) + unat (chan_B c)) div 3
       \<and> unat (chan_G (grey_pixel F c)) = (unat (chan_R c) + unat (chan_G c) + unat (chan_B c)) div 3
       \<and> unat (chan_B (grey_pixel F c)) = (unat (chan_R c) + unat (chan_G c) + unat (chan_B c)) div 3
       \<and> chan_A (grey_pixel F c) = chan_A c
       \<and> grey_pixel F \<lparr>chan_R = 25, chan_G = 75, chan_B = 250, chan_A = a\<rparr>
            = \<lparr>chan_R = 116, chan_G = 116, chan_B = 116, chan_A = a\<rparr>"
  using Grayscale_At [of x y img F] BSPGrayscale_At [of n x y img F] grey_example [OF r, of a]
  by (simp add: grey_pixel_average [OF r, of c] unat_average)

text \<open>A one-pixel image of colour \<open>(25, 75, 250, 9)\<close>, with exact arithmetic.\<close>

theorem grayscale_is_truncated_average_witness:
  "At (Out (Grayscale \<lparr>rnd = (\<lambda>x. x), muladd = (\<lambda>s a k. s + a * k)\<rparr>
              (Load \<lparr>Min_X = 0, Min_Y = 0, Max_X = 1, Max_Y = 1\<rparr>
                    (\<lambda>p. \<lparr>chan_R = 25, chan_G = 75, chan_B = 250, chan_A = 9\<rparr>)))) 0 0
     = \<lparr>chan_R = 116, chan_G = 116, chan_B = 116, chan_A = 9\<rparr>"
proof -
  let ?F = "\<lparr>rnd = (\<lambda>x. x), muladd = (\<lambda>s a k. s + a * k)\<rparr>"
  let ?img = "Load \<lparr>Min_X = 0, Min_Y = 0, Max_X = 1, Max_Y = 1\<rparr>
                   (\<lambda>p. \<lparr>chan_R = 25, chan_G = 75, chan_B = 250, chan_A = 9\<rparr>)"
  have r: "round_to_nearest (rnd ?F)" by (simp add: round_to_nearest_def)
  have p: "point_in 0 0 (Rect (Out ?img))" by (simp add: Load_def NewRGBA64_def point_in_def)
  have i: "At (In ?img) 0 0 = \<lparr>chan_R = 25, chan_G = 75, chan_B = 250, chan_A = 9\<rparr>"
    by (simp add: In_Load_At point_in_def)
  show ?thesis
    using grayscale_is_truncated_average [OF r, of 0 0 ?img 1 _ 9] p i by simp
qed

text \<open>
  Two grayscale passes: the second reads the first pass's output and writes over the
  buffer that held the loaded input.
\<close>

lemma Pix_In_Load:
  "Pix (In (Load bounds decoded)) (x, y) = (if point_in x y bounds then decoded (x, y) else zero_color)"
  by (auto simp: Load_def Pix_rows_fold NewRGBA64_def point_in_def)

lemma Rect_In_Load [simp]: "Rect (In (Load bounds decoded)) = bounds"
  by (simp add: Load_def NewRGBA64_def)

lemma grey_twice_buffers:
  assumes r: "round_to_nearest (rnd F)"
  defines "xs \<equiv> \<lambda>b. [Min_X b .. Max_X b - 1]" and "ys \<equiv> \<lambda>b. [Min_Y b .. Max_Y b - 1]"
  defines "once \<equiv> \<lambda>b d. foldl (\<lambda>out y. foldl (\<lambda>out x.
                        Set_pixel out x y (grey_pixel F (At (In (Load b d)) x y))) out (xs b))
                      (NewRGBA64 b) (ys b)"
  shows "foldl (\<lambda>out y. foldl (\<lambda>out x.
            Set_pixel out x y (grey_pixel F (At (once bounds decoded) x y))) out (xs bounds))
          (In (Load bounds decoded)) (ys bounds) = once bounds decoded"
proof (rule image_RGBA64_eqI)
  show "Rect (foldl (\<lambda>out y. foldl (\<lambda>out x.
            Set_pixel out x y (grey_pixel F (At (once bounds decoded) x y))) out (xs bounds))
          (In (Load bounds decoded)) (ys bounds)) = Rect (once bounds decoded)"
    by (simp add: once_def NewRGBA64_def)
  show "Pix (foldl (\<lambda>out y. foldl (\<lambda>out x.
            Set_pixel out x y (grey_pixel F (At (once bounds decoded) x y))) out (xs bounds))
          (In (Load bounds decoded)) (ys bounds)) = Pix (once bounds decoded)"
  proof (rule ext)
    fix q :: "int \<times> int"
    obtain x y where q: "q = (x, y)" by (cases q)
    have at1: "At (once bounds decoded) x y = grey_pixel F (decoded (x, y))"
      if "point_in x y bounds"
      using that
      by (simp add: once_def At_def Pix_rows_fold NewRGBA64_def xs_def ys_def Pix_In_Load)
         (simp add: point_in_def)
    show "Pix (foldl (\<lambda>out y. foldl (\<lambda>out x.
            Set_pixel out x y (grey_pixel F (At (once bounds decoded) x y))) out (xs bounds))
          (In (Load bounds decoded)) (ys bounds)) q = Pix (once bounds decoded) q"
    proof (cases "point_in x y bounds")
      case True
      then show ?thesis
        unfolding q
        by (simp add: Pix_rows_fold at1 grey_pixel_idem [OF r])
           (simp add: once_def Pix_rows_fold NewRGBA64_def xs_def ys_def At_def Pix_In_Load
             point_in_def)
    next
      case False
      then show ?thesis
        unfolding q
        by (simp add: Pix_rows_fold Pix_In_Load)
           (simp add: once_def Pix_rows_fold NewRGBA64_def)
    qed
  qed
qed


lemma Out_Load [simp]: "Out (Load bounds decoded) = NewRGBA64 bounds"
  by (simp add: Load_def)

lemma Bounds_Load [simp]: "Bounds (Load bounds decoded) = bounds"
  by (simp add: Load_def)

lemma process_G:
  assumes n: "1 \<le> n"
  shows "processImageBSP F (Load bounds decoded) [''G''] n =
           Done (foldl (\<lambda>out y. foldl (\<lambda>out x.
                     Set_pixel out x y (grey_pixel F (At (In (Load bounds decoded)) x y))) out
                     [Min_X bounds .. Max_X bounds - 1])
                   (NewRGBA64 bounds) [Min_Y bounds .. Max_Y bounds - 1])"
  by (simp add: processImageBSP_def apply_effect_def BSPGrayscale_def BSP_run_whole_image [OF n]
      Save_def)

lemma process_GG:
  assumes n: "1 \<le> n"
  shows "processImageBSP F (Load bounds decoded) [''G'', ''G''] n =
           Done (foldl (\<lambda>out y. foldl (\<lambda>out x.
                     Set_pixel out x y (grey_pixel F (At
                       (foldl (\<lambda>out y. foldl (\<lambda>out x.
                           Set_pixel out x y (grey_pixel F (At (In (Load bounds decoded)) x y))) out
                           [Min_X bounds .. Max_X bounds - 1])
                         (NewRGBA64 bounds) [Min_Y bounds .. Max_Y bounds - 1]) x y))) out
                     [Min_X bounds .. Max_X bounds - 1])
                   (In (Load bounds decoded)) [Min_Y bounds .. Max_Y bounds - 1])"
  by (simp add: processImageBSP_def apply_effect_def BSPGrayscale_def BSP_run_whole_image [OF n]
      Save_def SwapBuffers_def)

text \<open>
  Claim C9. For a rounding that meets IEEE 754 and at least one worker, the pipeline
  saves the same buffer for the effect lists \<open>[G, G]\<close> and \<open>[G]\<close> on every loaded image:
  both runs return, the saved buffer has the image's bounds and holds the grey pixel of
  the decoded colour at each of its points, and the grey pixel of a grey pixel is itself
  (alpha included).
\<close>

theorem grayscale_idempotent:
  assumes r: "round_to_nearest (rnd F)" and n: "1 \<le> n"
  shows "processImageBSP F (Load bounds decoded) [''G'', ''G''] n
           = processImageBSP F (Load bounds decoded) [''G''] n
       \<and> (\<exists>buf. processImageBSP F (Load bounds decoded) [''G''] n = Done buf
                \<and> Rect buf = bounds
                \<and> (\<forall>x y. At buf x y =
                      (if point_in x y bounds then grey_pixel F (decoded (x, y)) else zero_color)))
       \<and> grey_pixel F (grey_pixel F c) = grey_pixel F c"
proof -
  have eq: "processImageBSP F (Load bounds decoded) [''G'', ''G''] n
              = processImageBSP F (Load bounds decoded) [''G''] n"
    unfolding process_G [OF n] process_GG [OF n]
    using grey_twice_buffers [OF r, of bounds decoded] by simp
  have at: "At (foldl (\<lambda>out y. foldl (\<lambda>out x.
                     Set_pixel out x y (grey_pixel F (At (In (Load bounds decoded)) x y))) out
                     [Min_X bounds .. Max_X bounds - 1])
                   (NewRGBA64 bounds) [Min_Y bounds .. Max_Y bounds - 1]) x y =
              (if point_in x y bounds then grey_pixel F (decoded (x, y)) else zero_color)" for x y
    by (auto simp: At_def Pix_rows_fold NewRGBA64_def Pix_In_Load point_in_def)
  show ?thesis
    using eq at grey_pixel_idem [OF r, of c]
    by (simp add: process_G [OF n] NewRGBA64_def)
qed

text \<open>The one-pixel image again, one worker.\<close>

theorem grayscale_idempotent_witness:
  "processImageBSP \<lparr>rnd = (\<lambda>x. x), muladd = (\<lambda>s a k. s + a * k)\<rparr>
      (Load \<lparr>Min_X = 0, Min_Y = 0, Max_X = 1, Max_Y = 1\<rparr>
            (\<lambda>p. \<lparr>chan_R = 25, chan_G = 75, chan_B = 250, chan_A = 9\<rparr>)) [''G'', ''G''] 1
   = processImageBSP \<lparr>rnd = (\<lambda>x. x), muladd = (\<lambda>s a k. s + a * k)\<rparr>
      (Load \<lparr>Min_X = 0, Min_Y = 0, Max_X = 1, Max_Y = 1\<rparr>
            (\<lambda>p. \<lparr>chan_R = 25, chan_G = 75, chan_B = 250, chan_A = 9\<rparr>)) [''G''] 1"
proof -
  let ?F = "\<lparr>rnd = (\<lambda>x. x), muladd = (\<lambda>s a k. s + a * k)\<rparr>"
  have r: "round_to_nearest (rnd ?F)" by (simp add: round_to_nearest_def)
  have n: "(1::int) \<le> 1" by simp
  from grayscale_idempotent [OF r n] show ?thesis by blast
qed

section \<open>The barrier's phases\<close>

lemma barrier_inv_initial: "barrier_inv N (initial N)"
  by (simp add: barrier_inv_def initial_def NewBarrier_def)

lemma barrier_inv_step:
  assumes "barrier_inv N s" "step s ev = Some s'"
  shows "barrier_inv N s'"
proof (cases s)
  case (Pair b parked)
  show ?thesis
  proof (cases ev)
    case (Arrive t)
    with assms Pair show ?thesis
      by (auto simp: barrier_inv_def Wait_enter_def Let_def split: option.splits if_splits)
         (force+)?
  next
    case (Wake t)
    with assms Pair show ?thesis
      by (auto simp: barrier_inv_def split: option.splits if_splits)
  qed
qed

lemma barrier_inv_run:
  "barrier_inv N s \<Longrightarrow> run s evs = Some s' \<Longrightarrow> barrier_inv N s'"
proof (induction evs arbitrary: s)
  case Nil then show ?case by simp
next
  case (Cons e es)
  then show ?case by (auto split: option.splits dest: barrier_inv_step)
qed

lemma step_Arrive_counters:
  assumes "step (b, parked) (Arrive t) = Some (b', parked')"
  shows "(count b + 1 = threshold b \<longrightarrow> count b' = 0 \<and> generation b' = generation b + 1)
       \<and> (count b + 1 \<noteq> threshold b \<longrightarrow> count b' = count b + 1 \<and> generation b' = generation b)
       \<and> threshold b' = threshold b"
  using assms by (auto simp: Wait_enter_def Let_def split: option.splits if_splits)

lemma step_Wake_counters:
  assumes "step (b, parked) (Wake t) = Some (b', parked')"
  shows "b' = b"
  using assms by (auto split: option.splits if_splits)


text \<open>
  Claim C3. In every state that threads calling \<^verbatim>\<open>Wait\<close> reach from a new barrier of
  threshold \<open>N\<close>: an arrival that brings \<^verbatim>\<open>count\<close> to \<open>N\<close> resets it to 0 and adds one
  to \<^verbatim>\<open>generation\<close>; any other arrival adds one to \<^verbatim>\<open>count\<close>, which does not become
  0, and leaves \<^verbatim>\<open>generation\<close>; a wake-up changes no counter. A parked thread that
  captured \<open>g\<close> returns from \<^verbatim>\<open>Wait\<close> only in a state whose generation exceeds \<open>g\<close>, and
  a thread parked in the current generation that wakes up, by a broadcast of an earlier
  phase or spuriously, parks again.
\<close>

theorem barrier_phase_invariant:
  assumes reach: "run (initial N) evs = Some (b, parked)"
  shows "threshold b = N \<and> 0 \<le> count b
       \<and> (\<forall>t b' parked'. step (b, parked) (Arrive t) = Some (b', parked') \<longrightarrow>
             (count b + 1 = N \<longrightarrow> count b' = 0 \<and> generation b' = generation b + 1)
           \<and> (count b + 1 \<noteq> N \<longrightarrow>
                count b' = count b + 1 \<and> count b' \<noteq> 0 \<and> generation b' = generation b))
       \<and> (\<forall>t b' parked'. step (b, parked) (Wake t) = Some (b', parked') \<longrightarrow> b' = b)
       \<and> (\<forall>t g. parked t = Some g \<and> step (b, parked) (Wake t) = Some (b, parked(t := None))
             \<longrightarrow> g < generation b)
       \<and> (\<forall>t. parked t = Some (generation b) \<longrightarrow> step (b, parked) (Wake t) = Some (b, parked))"
proof -
  have inv: "barrier_inv N (b, parked)"
    using barrier_inv_run [OF barrier_inv_initial reach] .
  then have th: "threshold b = N" and c0: "0 \<le> count b"
    and le: "\<And>t g. parked t = Some g \<Longrightarrow> g \<le> generation b"
    by (auto simp: barrier_inv_def)
  have arrive: "(count b + 1 = N \<longrightarrow> count b' = 0 \<and> generation b' = generation b + 1)
           \<and> (count b + 1 \<noteq> N \<longrightarrow>
                count b' = count b + 1 \<and> count b' \<noteq> 0 \<and> generation b' = generation b)"
    if "step (b, parked) (Arrive t) = Some (b', parked')" for t b' parked'
    using step_Arrive_counters [OF that] th c0 by auto
  have wake: "b' = b" if "step (b, parked) (Wake t) = Some (b', parked')" for t b' parked'
    using step_Wake_counters [OF that] .
  have release: "g < generation b"
    if "parked t = Some g" "step (b, parked) (Wake t) = Some (b, parked(t := None))" for t g
  proof -
    have "Wait_wake b g"
    proof (rule ccontr)
      assume "\<not> Wait_wake b g"
      with that have "parked = parked(t := None)" by simp
      then have "parked t = None" by (metis fun_upd_same)
      with that(1) show False by simp
    qed
    then show ?thesis using le [OF that(1)] by (simp add: Wait_wake_def)
  qed
  have stay: "step (b, parked) (Wake t) = Some (b, parked)" if "parked t = Some (generation b)" for t
    using that by (simp add: Wait_wake_def)
  show ?thesis using th c0 arrive wake release stay by blast
qed

text \<open>
  Two participants. Thread 0 parks; thread 1 completes the phase and arrives again, in
  the next phase, before thread 0 has woken: thread 1 stays parked when it wakes, thread 0
  is released, by a generation above the one it captured.
\<close>

theorem barrier_phase_invariant_witness:
  "run (initial 2) [Arrive 0, Arrive 1, Arrive 1]
     = Some (\<lparr>count = 1, threshold = 2, generation = 1\<rparr>, (\<lambda>t. None)(0 := Some 0, 1 := Some 1))
   \<and> step (\<lparr>count = 1, threshold = 2, generation = 1\<rparr>, (\<lambda>t. None)(0 := Some 0, 1 := Some 1)) (Wake 1)
       = Some (\<lparr>count = 1, threshold = 2, generation = 1\<rparr>, (\<lambda>t. None)(0 := Some 0, 1 := Some 1))
   \<and> step (\<lparr>count = 1, threshold = 2, generation = 1\<rparr>, (\<lambda>t. None)(0 := Some 0, 1 := Some 1)) (Wake 0)
       = Some (\<lparr>count = 1, threshold = 2, generation = 1\<rparr>,
               ((\<lambda>t. None)(0 := Some 0, 1 := Some 1))(0 := None))
   \<and> (0::int) < generation \<lparr>count = 1, threshold = 2, generation = 1\<rparr>"
proof -
  let ?b = "\<lparr>count = 1, threshold = 2, generation = 1\<rparr>"
  let ?p = "(\<lambda>t::nat. None)(0 := Some 0, 1 := Some (1::int))"
  have reach: "run (initial 2) [Arrive 0, Arrive 1, Arrive 1] = Some (?b, ?p)"
    by (simp add: initial_def NewBarrier_def Wait_enter_def Let_def)
  have w0: "step (?b, ?p) (Wake 0) = Some (?b, ?p(0 := None))"
    by (simp add: Wait_wake_def)
  have p0: "?p 0 = Some 0" and p1: "?p 1 = Some (generation ?b)" by simp_all
  from barrier_phase_invariant [OF reach]
  have rel: "\<forall>t g. ?p t = Some g \<and> step (?b, ?p) (Wake t) = Some (?b, ?p(t := None))
               \<longrightarrow> g < generation ?b"
    and stay: "\<forall>t. ?p t = Some (generation ?b) \<longrightarrow> step (?b, ?p) (Wake t) = Some (?b, ?p)"
    by blast+
  from rel p0 w0 have "(0::int) < generation ?b" by blast
  moreover from stay p1 have "step (?b, ?p) (Wake 1) = Some (?b, ?p)" by blast
  ultimately show ?thesis using reach w0 by simp
qed

end
